theory Spec2Isabelle
  imports Complex_Main
begin

section \<open>Calendar dates and timestamps\<close>

text \<open>
  The program keeps its times as text: a commit timestamp is written
  \<^verbatim>\<open>%Y-%m-%d %H:%M:%S\<close> and the streak's last commit date \<^verbatim>\<open>%Y-%m-%d\<close>.
  A text of either shape is represented here by the numbers it spells, and
  \<^verbatim>\<open>datetime.strptime\<close> by the range check that decides whether the numbers form a
  date of the proleptic Gregorian calendar (years 1 to 9999); outside the range the
  library raises \<^verbatim>\<open>ValueError\<close>.
\<close>

datatype error = ValueError | IndexError | FileNotFoundError | PermissionError | JSONDecodeError

record date =
  year :: nat
  month :: nat
  day :: nat

record datetime =
  date_of :: date
  hour :: nat
  minute :: nat
  second :: nat

definition is_leap :: "nat \<Rightarrow> bool" where
  "is_leap y = (y mod 4 = 0 \<and> (y mod 100 \<noteq> 0 \<or> y mod 400 = 0))"

definition days_in_month :: "nat \<Rightarrow> nat \<Rightarrow> nat" where
  "days_in_month y m =
     (if m = 2 then (if is_leap y then 29 else 28)
      else if m = 4 \<or> m = 6 \<or> m = 9 \<or> m = 11 then 30 else 31)"

definition days_before_year :: "nat \<Rightarrow> int" where
  "days_before_year y =
     (let p = int y - 1 in p * 365 + p div 4 - p div 100 + p div 400)"

definition days_before_month :: "nat \<Rightarrow> nat \<Rightarrow> int" where
  "days_before_month y m =
     int ([0, 0, 31, 59, 90, 120, 151, 181, 212, 243, 273, 304, 334] ! m)
       + (if 2 < m \<and> is_leap y then 1 else 0)"

definition toordinal :: "date \<Rightarrow> int" where
  "toordinal d = days_before_year (year d) + days_before_month (year d) (month d) + int (day d)"

definition weekday :: "date \<Rightarrow> nat" where
  "weekday d = nat ((toordinal d + 6) mod 7)"

definition valid_date :: "date \<Rightarrow> bool" where
  "valid_date d =
     (1 \<le> year d \<and> year d \<le> 9999 \<and> 1 \<le> month d \<and> month d \<le> 12
      \<and> 1 \<le> day d \<and> day d \<le> days_in_month (year d) (month d))"

definition valid_datetime :: "datetime \<Rightarrow> bool" where
  "valid_datetime t =
     (valid_date (date_of t) \<and> hour t \<le> 23 \<and> minute t \<le> 59 \<and> second t \<le> 59)"

definition strptime :: "datetime \<Rightarrow> error + datetime" where
  "strptime t = (if valid_datetime t then Inr t else Inl ValueError)"

text \<open>
  The stored date is the text \<^verbatim>\<open>strftime('%Y-%m-%d')\<close> wrote, and there the year has
  as many digits as it needs: the year 999 is written \<^verbatim>\<open>999-06-01\<close>. Reading it back,
  \<^verbatim>\<open>%Y\<close> takes a year of exactly four digits, so a stored date is read only when its
  year is 1000 or later; an earlier one raises \<^verbatim>\<open>ValueError\<close>. (A timestamp passed in
  as an argument may spell its year \<^verbatim>\<open>0999\<close>.)
\<close>

definition readable_date :: "date \<Rightarrow> bool" where
  "readable_date d = (valid_date d \<and> 1000 \<le> year d)"

definition strptime_date :: "date \<Rightarrow> error + date" where
  "strptime_date d = (if readable_date d then Inr d else Inl ValueError)"



section \<open>The statistics document\<close>

record file_stats =
  commits :: int
  last_modified :: "datetime option"
  changes_per_month :: "string \<rightharpoonup> int"
  complexity_score :: real

record repo_stats =
  repo_total_commits :: int
  files :: "string \<rightharpoonup> file_stats"
  last_commit :: "datetime option"
  commit_types :: "string \<rightharpoonup> int"
  active_hours :: "int list"
  active_days :: "int list"

record streaks =
  current :: int
  longest :: int
  last_commit_date :: "date option"

record stats =
  repositories :: "string \<rightharpoonup> repo_stats"
  total_commits :: int
  commit_history :: "string list"
  developer_patterns :: "string \<rightharpoonup> string"
  most_active_times :: "string \<rightharpoonup> string"
  file_complexity :: "string \<rightharpoonup> string"
  commit_streaks :: streaks

definition empty_stats :: stats where
  "empty_stats =
     \<lparr> repositories = Map.empty,
       total_commits = 0,
       commit_history = [],
       developer_patterns = Map.empty,
       most_active_times = Map.empty,
       file_complexity = Map.empty,
       commit_streaks = \<lparr> current = 0, longest = 0, last_commit_date = None \<rparr> \<rparr>"

section \<open>The streak update\<close>

text \<open>
  \<^verbatim>\<open>update_commit_streak\<close> parses the timestamp, then the stored date when there is
  one; both parses come before the first assignment, so a \<^verbatim>\<open>ValueError\<close> leaves the
  document as it was.
\<close>

definition update_commit_streak :: "datetime \<Rightarrow> stats \<Rightarrow> error + stats" where
  "update_commit_streak timestamp s =
     (case strptime timestamp of
        Inl e \<Rightarrow> Inl e
      | Inr t \<Rightarrow>
          let current_date = date_of t; cs = commit_streaks s in
          (case last_commit_date cs of
             None \<Rightarrow>
               Inr (s\<lparr>commit_streaks :=
                      cs\<lparr>current := 1, last_commit_date := Some current_date\<rparr>\<rparr>)
           | Some stored \<Rightarrow>
               (case strptime_date stored of
                  Inl e \<Rightarrow> Inl e
                | Inr last_date \<Rightarrow>
                    let days_diff = toordinal current_date - toordinal last_date;
                        cs' =
                          (if days_diff = 1 then
                             cs\<lparr>current := current cs + 1,
                                longest := max (longest cs) (current cs + 1)\<rparr>
                           else if days_diff > 1 then cs\<lparr>current := 1\<rparr>
                           else cs)
                    in Inr (s\<lparr>commit_streaks :=
                              cs'\<lparr>last_commit_date := Some current_date\<rparr>\<rparr>))))"

text \<open>A sequence of streak updates, stopping at the first exception.\<close>

fun streak_updates :: "datetime list \<Rightarrow> stats \<Rightarrow> error + stats" where
  "streak_updates [] s = Inr s"
| "streak_updates (t # ts) s =
     (case update_commit_streak t s of Inl e \<Rightarrow> Inl e | Inr s' \<Rightarrow> streak_updates ts s')"

definition noon :: "nat \<Rightarrow> nat \<Rightarrow> nat \<Rightarrow> datetime" where
  "noon y m d = \<lparr> date_of = \<lparr> year = y, month = m, day = d \<rparr>, hour = 12, minute = 0, second = 0 \<rparr>"

section \<open>Loading, saving and recording a commit\<close>

text \<open>
  The file \<^verbatim>\<open>repository_stats.json\<close> as \<^verbatim>\<open>load_stats\<close> can find it: missing, present
  but not readable, readable but not JSON, or holding a document. A
  \<^verbatim>\<open>RepositoryStatistics\<close> object is its \<^verbatim>\<open>stats\<close> attribute together with the file
  its methods read and write, and whether the file can be opened for writing.
\<close>

datatype stats_file = Absent | Unreadable | Malformed | Document stats

record store =
  mem :: stats
  disk :: stats_file
  writable :: bool

text \<open>Only \<^verbatim>\<open>FileNotFoundError\<close> is caught; any other exception leaves the \<^verbatim>\<open>try\<close>.\<close>

definition load_stats :: "stats_file \<Rightarrow> error + stats" where
  "load_stats f =
     (case f of
        Absent \<Rightarrow> Inr empty_stats
      | Unreadable \<Rightarrow> Inl PermissionError
      | Malformed \<Rightarrow> Inl JSONDecodeError
      | Document d \<Rightarrow> Inr d)"

text \<open>
  \<^verbatim>\<open>save_stats\<close> opens the file for writing and dumps the document, with no
  \<^verbatim>\<open>try\<close>: when the file cannot be opened the exception leaves the method and the
  file is as it was.
\<close>

definition save_stats :: "store \<Rightarrow> error option \<times> store" where
  "save_stats w =
     (if writable w then (None, w\<lparr>disk := Document (mem w)\<rparr>) else (Some PermissionError, w))"

definition new_repo :: repo_stats where
  "new_repo =
     \<lparr> repo_total_commits = 0, files = Map.empty, last_commit = None,
       commit_types = Map.empty, active_hours = replicate 24 0, active_days = replicate 7 0 \<rparr>"

definition new_file :: file_stats where
  "new_file =
     \<lparr> commits = 0, last_modified = None, changes_per_month = Map.empty, complexity_score = 0 \<rparr>"

text \<open>\<^verbatim>\<open>xs[i] += 1\<close> for an index that is not negative.\<close>

definition list_incr :: "int list \<Rightarrow> nat \<Rightarrow> error + int list" where
  "list_incr xs i = (if i < length xs then Inr (xs[i := xs ! i + 1]) else Inl IndexError)"

text \<open>The entry a key has once the \<^verbatim>\<open>if ... not in ...\<close> before its use has run.\<close>

definition repo_entry :: "stats \<Rightarrow> string \<Rightarrow> repo_stats" where
  "repo_entry s repo_path =
     (case repositories s repo_path of None \<Rightarrow> new_repo | Some r \<Rightarrow> r)"

definition file_entry :: "repo_stats \<Rightarrow> string \<Rightarrow> file_stats" where
  "file_entry r file_path = (case files r file_path of None \<Rightarrow> new_file | Some f \<Rightarrow> f)"

definition put_repo :: "string \<Rightarrow> repo_stats \<Rightarrow> stats \<Rightarrow> stats" where
  "put_repo repo_path r s = s\<lparr>repositories := (repositories s)(repo_path \<mapsto> r)\<rparr>"

text \<open>
  \<^verbatim>\<open>add_commit\<close> changes the document in place, so an exception leaves behind what was
  assigned before it: the result is the exception, if any, and the object as it then
  is. The argument \<open>commit_type\<close> is not read.
\<close>

definition add_commit ::
  "string \<Rightarrow> string \<Rightarrow> string \<Rightarrow> datetime \<Rightarrow> store \<Rightarrow> error option \<times> store" where
  "add_commit repo_path file_path commit_type timestamp w =
     (let s = mem w;
          r0 = repo_entry s repo_path;
          r1 = r0\<lparr>repo_total_commits := repo_total_commits r0 + 1,
                  last_commit := Some timestamp\<rparr>;
          f0 = file_entry r1 file_path;
          f1 = f0\<lparr>commits := commits f0 + 1, last_modified := Some timestamp\<rparr>;
          r2 = r1\<lparr>files := (files r1)(file_path \<mapsto> f1)\<rparr>
      in case strptime timestamp of
           Inl e \<Rightarrow> (Some e, w\<lparr>mem := put_repo repo_path r2 s\<rparr>)
         | Inr t \<Rightarrow>
             (case list_incr (active_hours r2) (hour t) of
                Inl e \<Rightarrow> (Some e, w\<lparr>mem := put_repo repo_path r2 s\<rparr>)
              | Inr hours \<Rightarrow>
                  let r3 = r2\<lparr>active_hours := hours\<rparr> in
                  (case list_incr (active_days r3) (weekday (date_of t)) of
                     Inl e \<Rightarrow> (Some e, w\<lparr>mem := put_repo repo_path r3 s\<rparr>)
                   | Inr days \<Rightarrow>
                       let r4 = r3\<lparr>active_days := days\<rparr>;
                           s1 = (put_repo repo_path r4 s)\<lparr>total_commits := total_commits s + 1\<rparr>
                       in (case update_commit_streak timestamp s1 of
                             Inl e \<Rightarrow> (Some e, w\<lparr>mem := s1\<rparr>)
                           | Inr s2 \<Rightarrow> save_stats (w\<lparr>mem := s2\<rparr>)))))"

text \<open>
  A sequence of calls \<open>(repo_path, file_path, commit_type, timestamp)\<close>, each made on
  the object the one before left, whether or not that one raised.
\<close>

fun add_commits :: "(string \<times> string \<times> string \<times> datetime) list \<Rightarrow> store \<Rightarrow> store" where
  "add_commits [] w = w"
| "add_commits ((repo_path, file_path, commit_type, timestamp) # cs) w =
     add_commits cs (snd (add_commit repo_path file_path commit_type timestamp w))"


text \<open>The fields \<^verbatim>\<open>add_commit\<close> never assigns, in the state they are created in.\<close>

definition unwritten_fields_empty :: "stats \<Rightarrow> bool" where
  "unwritten_fields_empty s =
     (\<forall>r \<in> ran (repositories s).
        commit_types r = Map.empty
        \<and> (\<forall>f \<in> ran (files r). changes_per_month f = Map.empty \<and> complexity_score f = 0))"

section \<open>The complexity score\<close>

text \<open>
  A Python float is an IEEE binary64 number: 53 significant bits, and every operation
  gives the exact result rounded to the nearest such number, a tie going to the one
  whose last bit is 0. The exponent range is left out: the scores of a file's counts are
  far from overflow and underflow.
\<close>

definition round_even :: "real \<Rightarrow> int" where
  "round_even y =
     (let f = \<lfloor>y\<rfloor> in
      if y - of_int f < 1 / 2 then f
      else if 1 / 2 < y - of_int f then f + 1
      else if even f then f else f + 1)"

definition binary64 :: "real \<Rightarrow> real" where
  "binary64 x =
     (if x = 0 then 0
      else let u = 2 powr (of_int \<lfloor>log 2 \<bar>x\<bar>\<rfloor> - 52) in of_int (round_even (x / u)) * u)"

text \<open>The literal \<^verbatim>\<open>0.1\<close> is the float nearest to one tenth.\<close>

definition tenth :: real where
  "tenth = binary64 (1 / 10)"

text \<open>The conversion of an integer, and the float product and sum.\<close>

definition float_of_int :: "int \<Rightarrow> real" where
  "float_of_int n = binary64 (of_int n)"

definition float_mul :: "real \<Rightarrow> real \<Rightarrow> real" where
  "float_mul a b = binary64 (a * b)"

definition float_add :: "real \<Rightarrow> real \<Rightarrow> real" where
  "float_add a b = binary64 (a + b)"

text \<open>
  The dictionary \<^verbatim>\<open>complexity\<close>: the number of lines \<^verbatim>\<open>splitlines\<close> gives and the
  numbers of matches \<^verbatim>\<open>re.findall\<close> gives for the four patterns.
\<close>

record complexity =
  c_lines :: nat
  c_functions :: nat
  c_classes :: nat
  c_conditionals :: nat
  c_loops :: nat

text \<open>
  What \<^verbatim>\<open>calculate_file_complexity\<close> gets from the file: an exception of \<^verbatim>\<open>open\<close> or
  \<^verbatim>\<open>read\<close>, or a content and with it the counts of the scan.
\<close>

datatype file_scan = CannotRead | Scanned complexity

text \<open>
  The sum is evaluated from the left; each integer product is exact and is converted
  when it is added to a float.
\<close>

definition score_of :: "complexity \<Rightarrow> real" where
  "score_of c =
     float_add
       (float_add
          (float_add
             (float_add (float_mul (float_of_int (int (c_lines c))) tenth)
                (float_of_int (int (c_functions c) * 2)))
             (float_of_int (int (c_classes c) * 3)))
          (float_mul (float_of_int (int (c_conditionals c))) (3 / 2)))
       (float_of_int (int (c_loops c) * 2))"

text \<open>Any exception inside the \<^verbatim>\<open>try\<close> gives the integer 0.\<close>

definition calculate_file_complexity :: "file_scan \<Rightarrow> real" where
  "calculate_file_complexity f = (case f of CannotRead \<Rightarrow> 0 | Scanned c \<Rightarrow> score_of c)"

definition no_counts :: complexity where
  "no_counts = \<lparr> c_lines = 0, c_functions = 0, c_classes = 0, c_conditionals = 0, c_loops = 0 \<rparr>"

definition ten_lines_one_function :: complexity where
  "ten_lines_one_function =
     \<lparr> c_lines = 10, c_functions = 1, c_classes = 0, c_conditionals = 0, c_loops = 0 \<rparr>"

section \<open>A batch run\<close>

text \<open>
  \<^verbatim>\<open>process_repositories\<close> talks to the outside through git, the terminal and the
  random number generator. Their answers are parameters of the model: the verdict of
  the push dry-run and of the revert for each repository, the three answers typed at
  the prompts (after \<^verbatim>\<open>strip().lower()\<close>; the count as \<^verbatim>\<open>int\<close> read it, \<open>None\<close> when
  it raised), the numbers the generator will draw and the outcomes of the successive
  calls of \<^verbatim>\<open>git_commit\<close>. What the run does is written to a trace: the collaborator
  calls, the line that announces a repository's commit count and the error lines of
  the log.
\<close>

datatype message =
    AccessError string
  | NoAvailableRepositories
  | CommitFailed nat
  | ResetFailed string

datatype event =
    CheckAccess string
  | Processing string int
  | GitCommit string bool
  | ResetChanges string int
  | LogError message

record env =
  check_access :: "string \<Rightarrow> bool"
  reset_succeeds :: "string \<Rightarrow> bool"
  use_commit_control :: string
  total_commit_input :: "int option"
  keep_changes :: string

text \<open>
  The state of a run: the \<^verbatim>\<open>stats\<close> object and its file, the pending random numbers
  and commit outcomes, the module's \<^verbatim>\<open>total_commits\<close> and \<^verbatim>\<open>changes_made\<close>, the list
  \<^verbatim>\<open>processed_repos\<close> and the trace.
\<close>

record run = store +
  rng :: "nat list"
  commit_results :: "bool list"
  total_commits_global :: int
  changes_made :: int
  processed_repos :: "string list"
  events :: "event list"

text \<open>The answer \<^verbatim>\<open>yes\<close> in Russian, two Cyrillic letters, in UTF-8.\<close>

definition da :: string where
  "da = [CHR 0xD0, CHR 0xB4, CHR 0xD0, CHR 0xB0]"

definition emit :: "event \<Rightarrow> run \<Rightarrow> run" where
  "emit e st = st\<lparr>events := events st @ [e]\<rparr>"

definition draw :: "run \<Rightarrow> nat \<times> run" where
  "draw st = (case rng st of [] \<Rightarrow> (0, st) | r # rs \<Rightarrow> (r, st\<lparr>rng := rs\<rparr>))"

text \<open>
  \<^verbatim>\<open>random.randint(a, b)\<close> for \<open>a \<le> b\<close>, the only way the program calls it: the
  drawn number picks one of the \<open>b - a + 1\<close> values.
\<close>

definition randint :: "int \<Rightarrow> int \<Rightarrow> nat \<Rightarrow> int" where
  "randint a b r = a + int (r mod nat (b - a + 1))"

text \<open>\<^verbatim>\<open>random.sample(pool, k)\<close> for \<open>k \<le> len(pool)\<close>: \<open>k\<close> picks without replacement.\<close>

fun sample :: "string list \<Rightarrow> nat \<Rightarrow> run \<Rightarrow> string list \<times> run" where
  "sample pool 0 st = ([], st)"
| "sample pool (Suc k) st =
     (if pool = [] then ([], st)
      else
        let (r, st1) = draw st;
            i = r mod length pool;
            (chosen, st2) = sample (take i pool @ drop (Suc i) pool) k st1
        in (pool ! i # chosen, st2))"

text \<open>
  \<^verbatim>\<open>calculate_commits\<close>: the drawn number stands for the floor of the exponential
  variate.
\<close>

definition calculate_commits :: "nat \<Rightarrow> int" where
  "calculate_commits r = 1 + min 49 (int r)"

definition git_commit :: "string \<Rightarrow> run \<Rightarrow> bool \<times> run" where
  "git_commit repo_path st =
     (let ok = (case commit_results st of [] \<Rightarrow> False | b # _ \<Rightarrow> b)
      in (ok, emit (GitCommit repo_path ok) (st\<lparr>commit_results := tl (commit_results st)\<rparr>)))"

text \<open>
  The inner loop \<^verbatim>\<open>for j in range(n)\<close>: \<open>j\<close> commits are behind, \<open>n\<close> are still to
  make; the first failure ends it.
\<close>

fun commit_loop :: "string \<Rightarrow> nat \<Rightarrow> nat \<Rightarrow> run \<Rightarrow> run" where
  "commit_loop repo_path j 0 st = st"
| "commit_loop repo_path j (Suc n) st =
     (let (ok, st1) = git_commit repo_path st in
      if ok then
        commit_loop repo_path (Suc j) n
          (st1\<lparr>changes_made := changes_made st1 + 1,
               processed_repos := processed_repos st1 @ [repo_path]\<rparr>)
      else emit (LogError (CommitFailed (Suc j))) st1)"

definition commit_repo :: "string \<Rightarrow> int \<Rightarrow> run \<Rightarrow> run" where
  "commit_repo repo_path commits_this_repo st =
     commit_loop repo_path 0 (nat commits_this_repo) (emit (Processing repo_path commits_this_repo) st)"

text \<open>
  The loop over \<^verbatim>\<open>enumerate(selected_repos)\<close> under a budget. The repositories after
  the current one are \<open>rest\<close>, so \<^verbatim>\<open>len(selected_repos) - i - 1\<close> is \<open>length rest\<close>
  and the current one is the last when \<open>rest\<close> is empty. \<^verbatim>\<open>continue\<close> goes on to the
  next repository with the budget as it is.
\<close>

fun budget_loop :: "string list \<Rightarrow> int \<Rightarrow> run \<Rightarrow> run" where
  "budget_loop [] remaining_commits st = st"
| "budget_loop (repo_path # rest) remaining_commits st =
     (if rest = [] then commit_repo repo_path remaining_commits st
      else
        let max_commits = min (remaining_commits - int (length rest)) (remaining_commits - 1) in
        if max_commits \<le> 0 then budget_loop rest remaining_commits st
        else
          let (r, st1) = draw st;
              commits_this_repo = randint 1 max_commits r
          in budget_loop rest (remaining_commits - commits_this_repo)
               (commit_repo repo_path commits_this_repo st1))"

fun random_loop :: "string list \<Rightarrow> run \<Rightarrow> run" where
  "random_loop [] st = st"
| "random_loop (repo_path # rest) st =
     (let (r, st1) = draw st;
          commit_count_local = calculate_commits r
      in random_loop rest (commit_repo repo_path commit_count_local st1))"

fun check_all :: "env \<Rightarrow> string list \<Rightarrow> run \<Rightarrow> string list \<times> run" where
  "check_all env [] st = ([], st)"
| "check_all env (repo_path # rest) st =
     (let st1 = emit (CheckAccess repo_path) st in
      if check_access env repo_path then
        (let (available_repos, st2) = check_all env rest st1
         in (repo_path # available_repos, st2))
      else check_all env rest (emit (LogError (AccessError repo_path)) st1))"

text \<open>
  \<^verbatim>\<open>reset_changes\<close> asks git for \<^verbatim>\<open>HEAD~changes_made\<close>, resets to it and force-pushes;
  the count is the module's \<^verbatim>\<open>changes_made\<close>, the same for every repository.
\<close>

definition reset_changes :: "env \<Rightarrow> string \<Rightarrow> run \<Rightarrow> bool \<times> run" where
  "reset_changes env repo_path st =
     (reset_succeeds env repo_path, emit (ResetChanges repo_path (changes_made st)) st)"

text \<open>
  The loop over \<^verbatim>\<open>set(processed_repos)\<close>. The order in which Python walks a set is
  not fixed; the model walks the distinct elements in the order \<open>remdups\<close> leaves.
\<close>

fun rollback_loop :: "env \<Rightarrow> string list \<Rightarrow> run \<Rightarrow> run" where
  "rollback_loop env [] st = st"
| "rollback_loop env (repo_path # rest) st =
     (let (ok, st1) = reset_changes env repo_path st in
      rollback_loop env rest (if ok then st1 else emit (LogError (ResetFailed repo_path)) st1))"

definition finish :: "env \<Rightarrow> run \<Rightarrow> run" where
  "finish env st =
     (if changes_made st > 0 then
        (if keep_changes env \<noteq> da then
           (rollback_loop env (remdups (processed_repos st)) st)\<lparr>total_commits_global := 0\<rparr>
         else st\<lparr>total_commits_global := changes_made st\<rparr>)
      else st)"

text \<open>
  \<^verbatim>\<open>process_repositories\<close> has no \<^verbatim>\<open>return\<close> with a value: what its caller gets is
  the exception that left it, or nothing. The first component of the result is that
  exception, \<open>None\<close> when the call returned.
\<close>

definition process_repositories :: "env \<Rightarrow> string list \<Rightarrow> run \<Rightarrow> error option \<times> run" where
  "process_repositories env repositories_arg st0 =
     (case load_stats (disk st0) of
        Inl e \<Rightarrow> (Some e, st0\<lparr>events := []\<rparr>)
      | Inr loaded \<Rightarrow>
          let st = st0\<lparr>mem := loaded, changes_made := 0, processed_repos := [], events := []\<rparr>;
              (available_repos, st1) = check_all env repositories_arg st
          in
          if available_repos = [] then (None, emit (LogError NoAvailableRepositories) st1)
          else if use_commit_control env = da then
            (case total_commit_input env of
               None \<Rightarrow> (Some ValueError, st1)
             | Some budget \<Rightarrow>
                 let (r, st2) = draw st1;
                     num_repos = nat (randint 1 (int (length available_repos)) r);
                     (selected_repos, st3) = sample available_repos num_repos st2
                 in (None, finish env (budget_loop selected_repos budget st3)))
          else
            let (r, st2) = draw st1;
                num_repos = nat (randint 1 (int (length available_repos)) r);
                (selected_repos, st3) = sample available_repos num_repos st2
            in (None, finish env (random_loop selected_repos st3)))"

text \<open>What a trace says: the commit counts announced, the commits that went through, the reverts asked for.\<close>

fun allocations :: "event list \<Rightarrow> (string \<times> int) list" where
  "allocations [] = []"
| "allocations (Processing repo_path n # es) = (repo_path, n) # allocations es"
| "allocations (e # es) = allocations es"

fun successes :: "event list \<Rightarrow> string list" where
  "successes [] = []"
| "successes (GitCommit repo_path True # es) = repo_path # successes es"
| "successes (e # es) = successes es"

fun attempts :: "event list \<Rightarrow> string list" where
  "attempts [] = []"
| "attempts (GitCommit repo_path ok # es) = repo_path # attempts es"
| "attempts (e # es) = attempts es"

fun resets :: "event list \<Rightarrow> string list" where
  "resets [] = []"
| "resets (ResetChanges repo_path n # es) = repo_path # resets es"
| "resets (e # es) = resets es"







text \<open>
  What holds of a run's state from the start of a batch to the prompt that ends it:
  \<^verbatim>\<open>processed_repos\<close> lists the commits that went through, \<^verbatim>\<open>changes_made\<close> counts
  them, and no revert has been asked for.
\<close>

definition batch_inv :: "run \<Rightarrow> bool" where
  "batch_inv st =
     (processed_repos st = successes (events st)
      \<and> changes_made st = int (length (processed_repos st))
      \<and> resets (events st) = [])"

definition three_way_run :: run where
  "three_way_run =
     \<lparr> mem = empty_stats, disk = Absent, writable = True, rng = [7, 2], commit_results = [True, True, True, True, True],
       total_commits_global = 0, changes_made = 0, processed_repos = [], events = [] \<rparr>"


definition fresh_run :: run where
  "fresh_run =
     \<lparr> mem = empty_stats, disk = Absent, writable = True, rng = [1, 0, 0, 1],
       commit_results = [True, True, True, True],
       total_commits_global = 0, changes_made = 0, processed_repos = [], events = [] \<rparr>"


definition discarding_env :: env where
  "discarding_env =
     \<lparr> check_access = (\<lambda>r. True), reset_succeeds = (\<lambda>r. True), use_commit_control = da,
       total_commit_input = Some 4, keep_changes = ''no'' \<rparr>"

section \<open>Properties of the streak update\<close>


lemmas calendar_defs =
  strptime_def strptime_date_def readable_date_def valid_datetime_def valid_date_def days_in_month_def
  is_leap_def toordinal_def days_before_year_def days_before_month_def noon_def



text \<open>
  A stored date the program wrote for a year before 1000 is not read back: the update
  raises and the document stays as it was.
\<close>

lemma update_commit_streak_unreadable:
  assumes "valid_datetime t" and "last_commit_date (commit_streaks s) = Some l"
    and "\<not> readable_date l"
  shows "update_commit_streak t s = Inl ValueError"
  using assms by (simp add: update_commit_streak_def strptime_def strptime_date_def)

lemma year_999_stored_then_raises:
  "\<exists>s. update_commit_streak (noon 999 6 1) empty_stats = Inr s
       \<and> last_commit_date (commit_streaks s) = Some \<lparr> year = 999, month = 6, day = 1 \<rparr>
       \<and> update_commit_streak (noon 999 6 2) s = Inl ValueError"
  by (simp add: update_commit_streak_def calendar_defs empty_stats_def)

text \<open>
  C1. The claim: after every streak update \<open>current \<le> longest\<close>, and the dates
  2024-01-01, 2024-01-05 leave \<open>current = 1\<close> and \<open>longest = 1\<close>. The code assigns
  \<open>longest\<close> only where it increments \<open>current\<close>: the first commit of a fresh store
  sets \<open>current\<close> to 1 and leaves \<open>longest\<close> at 0, and so does the commit after a gap.
\<close>

theorem first_commit_leaves_longest_behind:
  "(\<exists>s. streak_updates [noon 2024 1 1] empty_stats = Inr s
        \<and> current (commit_streaks s) = 1 \<and> longest (commit_streaks s) = 0
        \<and> \<not> current (commit_streaks s) \<le> longest (commit_streaks s))
   \<and> (\<exists>s. streak_updates [noon 2024 1 1, noon 2024 1 5] empty_stats = Inr s
        \<and> current (commit_streaks s) = 1 \<and> longest (commit_streaks s) = 0)"
  by (simp add: update_commit_streak_def calendar_defs empty_stats_def)























section \<open>Properties of the statistics store\<close>




lemma update_commit_streak_frame:
  assumes "update_commit_streak t s = Inr s'"
  shows "repositories s' = repositories s \<and> total_commits s' = total_commits s"
  using assms
  by (auto simp: update_commit_streak_def Let_def split: sum.splits option.splits)




text \<open>
  C3. The claim: whatever makes reading the file fail, \<^verbatim>\<open>load_stats\<close> yields the empty
  structure. The code catches \<^verbatim>\<open>FileNotFoundError\<close> alone: a missing file gives the
  empty structure (no repositories, zero commits, empty mappings, streak 0, 0 and no
  date), while a file that cannot be read or is not JSON makes the call raise.
\<close>

theorem load_stats_falls_back_when_absent_only:
  "load_stats Absent = Inr empty_stats
   \<and> repositories empty_stats = Map.empty
   \<and> total_commits empty_stats = 0
   \<and> commit_history empty_stats = []
   \<and> developer_patterns empty_stats = Map.empty
   \<and> most_active_times empty_stats = Map.empty
   \<and> file_complexity empty_stats = Map.empty
   \<and> commit_streaks empty_stats = \<lparr>current = 0, longest = 0, last_commit_date = None\<rparr>
   \<and> load_stats Unreadable = Inl PermissionError
   \<and> load_stats Malformed = Inl JSONDecodeError
   \<and> load_stats (Document d) = Inr d"
  by (simp add: load_stats_def empty_stats_def)

text \<open>
  C3, as claimed, fails on a file that is not JSON: the call does not yield the empty
  structure.
\<close>

theorem load_stats_malformed_raises:
  "load_stats Malformed \<noteq> Inr empty_stats"
  by (simp add: load_stats_def)

text \<open>
  C10. \<^verbatim>\<open>add_commit\<close> never assigns \<open>commit_types\<close>, \<open>changes_per_month\<close> or
  \<open>complexity_score\<close>: after any sequence of calls on the empty store, whatever their
  arguments and whether or not they raised, every repository's \<open>commit_types\<close> is empty
  and every file's \<open>changes_per_month\<close> is empty and its \<open>complexity_score\<close> 0; and
  the result of a call does not depend on its \<open>commit_type\<close> argument.
\<close>

lemma add_commit_mem_cases:
  "\<exists>r f. repositories (mem (snd (add_commit repo_path file_path commit_type t w))) repo_path = Some r
      \<and> (\<forall>p. p \<noteq> repo_path \<longrightarrow>
             repositories (mem (snd (add_commit repo_path file_path commit_type t w))) p
               = repositories (mem w) p)
      \<and> commit_types r = commit_types (repo_entry (mem w) repo_path)
      \<and> files r file_path = Some f
      \<and> (\<forall>p. p \<noteq> file_path \<longrightarrow> files r p = files (repo_entry (mem w) repo_path) p)
      \<and> changes_per_month f
           = changes_per_month (file_entry (repo_entry (mem w) repo_path) file_path)
      \<and> complexity_score f
           = complexity_score (file_entry (repo_entry (mem w) repo_path) file_path)"
  by (auto simp: add_commit_def Let_def put_repo_def save_stats_def file_entry_def
      dest!: update_commit_streak_frame split: sum.splits)

lemma repo_entry_unwritten:
  assumes "unwritten_fields_empty s"
  shows "commit_types (repo_entry s p) = Map.empty
         \<and> (\<forall>f \<in> ran (files (repo_entry s p)).
               changes_per_month f = Map.empty \<and> complexity_score f = 0)"
proof (cases "repositories s p")
  case None
  then show ?thesis by (simp add: repo_entry_def new_repo_def)
next
  case (Some r)
  then have "r \<in> ran (repositories s)" by (auto simp: ran_def)
  with assms Some show ?thesis by (simp add: unwritten_fields_empty_def repo_entry_def)
qed

lemma file_entry_unwritten:
  assumes "\<forall>f \<in> ran (files r). changes_per_month f = Map.empty \<and> complexity_score f = 0"
  shows "changes_per_month (file_entry r p) = Map.empty \<and> complexity_score (file_entry r p) = 0"
proof (cases "files r p")
  case None
  then show ?thesis by (simp add: file_entry_def new_file_def)
next
  case (Some f)
  then have "f \<in> ran (files r)" by (auto simp: ran_def)
  with assms Some show ?thesis by (simp add: file_entry_def)
qed

lemma add_commit_unwritten:
  assumes "unwritten_fields_empty (mem w)"
  shows "unwritten_fields_empty (mem (snd (add_commit repo_path file_path commit_type t w)))"
proof -
  let ?old = "repo_entry (mem w) repo_path"
  let ?s' = "mem (snd (add_commit repo_path file_path commit_type t w))"
  from add_commit_mem_cases [of repo_path file_path commit_type t w]
  obtain r f where
    rp: "repositories ?s' repo_path = Some r"
    and others: "\<forall>p. p \<noteq> repo_path \<longrightarrow> repositories ?s' p = repositories (mem w) p"
    and ct: "commit_types r = commit_types ?old"
    and fp: "files r file_path = Some f"
    and fothers: "\<forall>p. p \<noteq> file_path \<longrightarrow> files r p = files ?old p"
    and cm: "changes_per_month f = changes_per_month (file_entry ?old file_path)"
    and cx: "complexity_score f = complexity_score (file_entry ?old file_path)"
    by blast
  note r0 = repo_entry_unwritten [OF assms, of repo_path]
  from r0 have f0: "changes_per_month (file_entry ?old file_path) = Map.empty
      \<and> complexity_score (file_entry ?old file_path) = 0"
    by (intro file_entry_unwritten) simp
  have files_ok: "changes_per_month g = Map.empty \<and> complexity_score g = 0"
    if "g \<in> ran (files r)" for g
  proof -
    from that obtain p where "files r p = Some g" by (auto simp: ran_def)
    with fp fothers have "g = f \<or> g \<in> ran (files ?old)"
      by (cases "p = file_path") (auto simp: ran_def)
    with r0 f0 cm cx show ?thesis by auto
  qed
  have "commit_types q = Map.empty
        \<and> (\<forall>g \<in> ran (files q). changes_per_month g = Map.empty \<and> complexity_score g = 0)"
    if "q \<in> ran (repositories (mem (snd (add_commit repo_path file_path commit_type t w))))" for q
  proof -
    from that obtain p where "repositories ?s' p = Some q" by (auto simp: ran_def)
    with rp others have "q = r \<or> q \<in> ran (repositories (mem w))"
      by (cases "p = repo_path") (auto simp: ran_def)
    then show ?thesis
    proof
      assume "q = r"
      with ct r0 files_ok show ?thesis by simp
    next
      assume "q \<in> ran (repositories (mem w))"
      with assms show ?thesis by (simp add: unwritten_fields_empty_def)
    qed
  qed
  then show ?thesis by (simp add: unwritten_fields_empty_def)
qed

lemma add_commits_unwritten:
  "unwritten_fields_empty (mem w) \<Longrightarrow> unwritten_fields_empty (mem (add_commits cs w))"
proof (induction cs arbitrary: w)
  case Nil
  then show ?case by simp
next
  case (Cons c cs)
  obtain rp fp ct t where c: "c = (rp, fp, ct, t)" by (cases c) auto
  from Cons.prems have "unwritten_fields_empty (mem (snd (add_commit rp fp ct t w)))"
    by (rule add_commit_unwritten)
  then show ?case using Cons.IH by (simp add: c)
qed

theorem add_commit_never_writes_types_months_complexity:
  "unwritten_fields_empty (mem (add_commits cs \<lparr>mem = empty_stats, disk = d, writable = b\<rparr>))
   \<and> add_commit repo_path file_path commit_type t w = add_commit repo_path file_path other_type t w"
proof
  have "unwritten_fields_empty (mem \<lparr>mem = empty_stats, disk = d, writable = b\<rparr>)"
    by (simp add: unwritten_fields_empty_def empty_stats_def)
  then show "unwritten_fields_empty (mem (add_commits cs \<lparr>mem = empty_stats, disk = d, writable = b\<rparr>))"
    by (rule add_commits_unwritten)
next
  show "add_commit repo_path file_path commit_type t w
          = add_commit repo_path file_path other_type t w"
    by (simp add: add_commit_def)
qed


theorem add_commit_never_writes_types_months_complexity_witness:
  "\<exists>r f. repositories
            (mem (add_commits [(''repo'', ''a.py'', ''fix'', noon 2024 3 4)]
                    \<lparr>mem = empty_stats, disk = Absent, writable = True\<rparr>)) ''repo'' = Some r
      \<and> files r ''a.py'' = Some f
      \<and> commits f = 1
      \<and> commit_types r = Map.empty
      \<and> changes_per_month f = Map.empty
      \<and> complexity_score f = 0"
proof -
  let ?s = "mem (add_commits [(''repo'', ''a.py'', ''fix'', noon 2024 3 4)]
                   \<lparr>mem = empty_stats, disk = Absent, writable = True\<rparr>)"
  have "\<exists>r f. repositories ?s ''repo'' = Some r \<and> files r ''a.py'' = Some f \<and> commits f = 1"
    by (simp add: add_commit_def Let_def calendar_defs list_incr_def repo_entry_def file_entry_def
          put_repo_def weekday_def new_repo_def new_file_def empty_stats_def
          update_commit_streak_def save_stats_def)
  then obtain r f where
    r: "repositories ?s ''repo'' = Some r" and f: "files r ''a.py'' = Some f" and c: "commits f = 1"
    by blast
  from r have "r \<in> ran (repositories ?s)" by (auto simp: ran_def)
  moreover from f have "f \<in> ran (files r)" by (auto simp: ran_def)
  moreover have "unwritten_fields_empty ?s"
    using add_commit_never_writes_types_months_complexity
            [of "[(''repo'', ''a.py'', ''fix'', noon 2024 3 4)]" Absent True]
    by blast
  ultimately have "commit_types r = Map.empty \<and> changes_per_month f = Map.empty
      \<and> complexity_score f = 0"
    by (simp add: unwritten_fields_empty_def)
  with r f c show ?thesis by blast
qed

section \<open>Properties of the complexity score\<close>

lemma round_even_of_int: "round_even (of_int z) = z"
  by (simp add: round_even_def)

lemma floor_log2:
  assumes "2 powr of_int k \<le> x" and "x < 2 powr (of_int k + 1)"
  shows "\<lfloor>log 2 x\<rfloor> = k"
proof -
  have pos: "0 < x" using assms(1) by (rule less_le_trans [rotated]) simp
  from assms(1) pos have "of_int k \<le> log 2 x" by (simp add: le_log_iff)
  moreover from assms(2) pos have "log 2 x < of_int k + 1" by (simp add: log_less_iff)
  ultimately show ?thesis by (simp add: floor_eq_iff)
qed

lemma powr_of_int_nonneg:
  assumes "0 \<le> z"
  shows "(2::real) powr of_int z = 2 ^ nat z"
proof -
  from assms have "(of_int z :: real) = real (nat z)" by simp
  then have "(2::real) powr of_int z = 2 powr real (nat z)" by (rule arg_cong)
  also have "\<dots> = 2 ^ nat z" by (rule powr_realpow) simp
  finally show ?thesis .
qed

lemma binary64_exact:
  assumes m: "\<bar>m\<bar> < 2 ^ 53"
  shows "binary64 (of_int m * 2 powr of_int j) = of_int m * 2 powr of_int j"
proof (cases "m = 0")
  case True
  then show ?thesis by (simp add: binary64_def)
next
  case False
  let ?x = "of_int m * 2 powr of_int j :: real"
  define k where "k = \<lfloor>log 2 \<bar>of_int m :: real\<bar>\<rfloor>"
  from False have mpos: "0 < \<bar>of_int m :: real\<bar>" by simp
  have "log 2 \<bar>of_int m :: real\<bar> < 53"
  proof -
    from m have "\<bar>of_int m :: real\<bar> < 2 ^ 53"
      by (metis of_int_abs of_int_less_numeral_power_cancel_iff)
    then have "\<bar>of_int m :: real\<bar> < 2 powr 53" by simp
    with mpos show ?thesis by (simp add: log_less_iff)
  qed
  then have k: "k \<le> 52" unfolding k_def by (simp add: floor_le_iff) 
  have x0: "?x \<noteq> 0" using False by simp
  have "\<bar>?x\<bar> = \<bar>of_int m\<bar> * 2 powr of_int j" by (simp add: abs_mult)
  then have "log 2 \<bar>?x\<bar> = log 2 \<bar>of_int m :: real\<bar> + of_int j"
    using mpos by (simp add: log_mult)
  then have e: "\<lfloor>log 2 \<bar>?x\<bar>\<rfloor> = k + j" by (simp add: k_def)
  define u :: real where "u = 2 powr (of_int (k + j) - 52)"
  have q: "?x / u = of_int (m * 2 ^ nat (52 - k))"
  proof -
    have "?x / u = of_int m * (2 powr of_int j / 2 powr (of_int (k + j) - 52))"
      unfolding u_def by (simp only: times_divide_eq_right)
    also have "2 powr of_int j / 2 powr (of_int (k + j) - 52)
                 = (2::real) powr (of_int j - (of_int (k + j) - 52))"
      by (rule powr_diff [symmetric])
    also have "of_int j - (of_int (k + j) - 52) = (of_int (52 - k) :: real)" by simp
    also have "2 powr (of_int (52 - k) :: real) = 2 ^ nat (52 - k)"
      using k by (intro powr_of_int_nonneg) simp
    finally show ?thesis by simp
  qed
  have "binary64 ?x = of_int (round_even (?x / u)) * u"
    using x0 unfolding binary64_def e u_def by (simp add: Let_def)
  also have "\<dots> = (?x / u) * u" by (simp only: q round_even_of_int)
  also have "\<dots> = ?x" by (simp add: u_def)
  finally show ?thesis .
qed


lemma binary64_of_int:
  assumes "\<bar>n\<bar> < 2 ^ 53"
  shows "binary64 (of_int n) = of_int n"
  using binary64_exact [OF assms, of 0] by simp

lemma binary64_halves:
  assumes "\<bar>n\<bar> < 2 ^ 53"
  shows "binary64 (of_int n / 2) = of_int n / 2"
  using binary64_exact [OF assms, of "-1"] by (simp add: powr_minus field_simps)

lemma binary64_eval:
  assumes "2 powr of_int k \<le> \<bar>x\<bar>" and "\<bar>x\<bar> < 2 powr (of_int k + 1)"
  shows "binary64 x = of_int (round_even (x / 2 powr (of_int k - 52))) * 2 powr (of_int k - 52)"
proof -
  from assms(1) have "0 < \<bar>x\<bar>" by (rule less_le_trans [rotated]) simp
  then have "x \<noteq> 0" by simp
  with floor_log2 [OF assms] show ?thesis by (simp add: binary64_def Let_def)
qed

lemma tenth_value: "tenth = 3602879701896397 / 2 ^ 55"
proof -
  have "binary64 (1 / 10) = of_int (round_even ((1 / 10) / 2 powr (of_int (- 4) - 52))) * 2 powr (of_int (- 4) - 52)"
    by (rule binary64_eval) (simp_all add: powr_minus)
  also have "(2::real) powr (of_int (- 4) - 52) = 1 / 2 ^ 56"
    by (simp add: powr_minus inverse_eq_divide)
  also have "round_even ((1 / 10) / (1 / 2 ^ 56)) = 7205759403792794"
    by (simp add: round_even_def)
  finally show ?thesis by (simp add: tenth_def)
qed

lemma ten_tenths: "binary64 (10 * tenth) = 1"
proof -
  have "binary64 (10 * tenth) = of_int (round_even ((10 * tenth) / 2 powr (of_int 0 - 52))) * 2 powr (of_int 0 - 52)"
    by (rule binary64_eval) (simp_all add: tenth_value)
  also have "(2::real) powr (of_int 0 - 52) = 1 / 2 ^ 52"
    by (simp add: powr_minus inverse_eq_divide)
  also have "round_even ((10 * tenth) / (1 / 2 ^ 52)) = 4503599627370496"
    by (simp add: round_even_def tenth_value)
  finally show ?thesis by simp
qed

lemma float_of_nat:
  assumes "n < 2 ^ 53"
  shows "float_of_int (int n) = real n"
proof -
  from assms have "\<bar>int n\<bar> < 2 ^ 53" by simp
  from binary64_of_int [OF this] show ?thesis by (simp add: float_of_int_def)
qed

lemma score_of_bounded:
  assumes "c_lines c < 2 ^ 50" and "c_functions c < 2 ^ 50" and "c_classes c < 2 ^ 50"
    and "c_conditionals c < 2 ^ 50" and "c_loops c < 2 ^ 50"
  shows "score_of c =
           binary64 (binary64 (binary64 (binary64 (binary64 (real (c_lines c) * tenth)
             + real (c_functions c) * 2) + real (c_classes c) * 3)
             + real (c_conditionals c) * (3 / 2)) + real (c_loops c) * 2)"
proof -
  have l: "float_of_int (int (c_lines c)) = real (c_lines c)"
    using assms(1) by (intro float_of_nat) simp
  have f: "float_of_int (int (c_functions c) * 2) = real (c_functions c) * 2"
    using assms(2) float_of_nat [of "c_functions c * 2"] by simp
  have k: "float_of_int (int (c_classes c) * 3) = real (c_classes c) * 3"
    using assms(3) float_of_nat [of "c_classes c * 3"] by simp
  have w: "float_of_int (int (c_loops c) * 2) = real (c_loops c) * 2"
    using assms(5) float_of_nat [of "c_loops c * 2"] by simp
  have i0: "float_of_int (int (c_conditionals c)) = real (c_conditionals c)"
    using assms(4) by (intro float_of_nat) simp
  have "\<bar>int (c_conditionals c) * 3\<bar> < 2 ^ 53"
    using assms(4) by simp
  from binary64_halves [OF this]
  have i: "binary64 (real (c_conditionals c) * (3 / 2)) = real (c_conditionals c) * (3 / 2)"
    by simp
  show ?thesis
    by (simp only: score_of_def float_add_def float_mul_def l f k w i0 i)
qed

lemma binary64_zero: "binary64 0 = 0"
  by (simp add: binary64_def)

lemma binary64_three: "binary64 3 = 3"
  using binary64_of_int [of 3] by simp

text \<open>
  C8. A file that cannot be read scores 0. A content that is read scores the sum
  \<open>lines * 0.1 + functions * 2 + classes * 3 + conditionals * 1.5 + loops * 2\<close> of its
  counts, in float arithmetic: every conversion, product and sum is rounded to
  binary64, and for counts below \<open>2 ^ 50\<close> only the product with \<open>0.1\<close> and the four
  sums round at all. Counts that are all 0, as those of the empty content are, score 0;
  10 lines and 1 function definition, nothing else counted, score exactly 3.
\<close>

theorem complexity_score_formula:
  "calculate_file_complexity CannotRead = 0
   \<and> calculate_file_complexity (Scanned c) =
        binary64 (binary64 (binary64 (binary64
          (binary64 (binary64 (real (c_lines c)) * binary64 (1 / 10))
           + binary64 (real (c_functions c * 2)))
           + binary64 (real (c_classes c * 3)))
           + binary64 (binary64 (real (c_conditionals c)) * (3 / 2)))
           + binary64 (real (c_loops c * 2)))
   \<and> (c_lines c < 2 ^ 50 \<and> c_functions c < 2 ^ 50 \<and> c_classes c < 2 ^ 50
        \<and> c_conditionals c < 2 ^ 50 \<and> c_loops c < 2 ^ 50 \<longrightarrow>
      calculate_file_complexity (Scanned c) =
        binary64 (binary64 (binary64 (binary64
          (binary64 (real (c_lines c) * binary64 (1 / 10))
           + real (c_functions c) * 2)
           + real (c_classes c) * 3)
           + real (c_conditionals c) * (3 / 2))
           + real (c_loops c) * 2))
   \<and> calculate_file_complexity (Scanned no_counts) = 0
   \<and> calculate_file_complexity (Scanned ten_lines_one_function) = 3"
proof (intro conjI impI)
  show "calculate_file_complexity CannotRead = 0"
    by (simp add: calculate_file_complexity_def)
  show "calculate_file_complexity (Scanned c) =
        binary64 (binary64 (binary64 (binary64
          (binary64 (binary64 (real (c_lines c)) * binary64 (1 / 10))
           + binary64 (real (c_functions c * 2)))
           + binary64 (real (c_classes c * 3)))
           + binary64 (binary64 (real (c_conditionals c)) * (3 / 2)))
           + binary64 (real (c_loops c * 2)))"
    by (simp add: calculate_file_complexity_def score_of_def float_add_def float_mul_def
          float_of_int_def tenth_def)
  show "calculate_file_complexity (Scanned c) =
        binary64 (binary64 (binary64 (binary64
          (binary64 (real (c_lines c) * binary64 (1 / 10))
           + real (c_functions c) * 2)
           + real (c_classes c) * 3)
           + real (c_conditionals c) * (3 / 2))
           + real (c_loops c) * 2)"
    if "c_lines c < 2 ^ 50 \<and> c_functions c < 2 ^ 50 \<and> c_classes c < 2 ^ 50
        \<and> c_conditionals c < 2 ^ 50 \<and> c_loops c < 2 ^ 50"
    using that score_of_bounded [of c]
    by (simp add: calculate_file_complexity_def tenth_def)
  have "score_of no_counts = 0"
    by (simp add: score_of_def float_add_def float_mul_def float_of_int_def no_counts_def
          binary64_zero)
  then show "calculate_file_complexity (Scanned no_counts) = 0"
    by (simp add: calculate_file_complexity_def)
  have "score_of ten_lines_one_function =
          binary64 (binary64 (binary64 (binary64 (binary64 (real 10 * tenth)
             + real 1 * 2) + real 0 * 3) + real 0 * (3 / 2)) + real 0 * 2)"
    using score_of_bounded [of ten_lines_one_function]
    by (simp add: ten_lines_one_function_def)
  also have "\<dots> = 3"
    by (simp add: ten_tenths binary64_three)
  finally show "calculate_file_complexity (Scanned ten_lines_one_function) = 3"
    by (simp add: calculate_file_complexity_def)
qed

theorem complexity_score_formula_witness:
  "c_lines ten_lines_one_function < 2 ^ 50
   \<and> c_functions ten_lines_one_function < 2 ^ 50
   \<and> c_classes ten_lines_one_function < 2 ^ 50
   \<and> c_conditionals ten_lines_one_function < 2 ^ 50
   \<and> c_loops ten_lines_one_function < 2 ^ 50
   \<and> calculate_file_complexity (Scanned ten_lines_one_function) =
        binary64 (binary64 (binary64 (binary64 (binary64 (10 * binary64 (1 / 10)) + 2) + 0) + 0) + 0)"
proof -
  have b: "c_lines ten_lines_one_function < 2 ^ 50 \<and> c_functions ten_lines_one_function < 2 ^ 50
      \<and> c_classes ten_lines_one_function < 2 ^ 50 \<and> c_conditionals ten_lines_one_function < 2 ^ 50
      \<and> c_loops ten_lines_one_function < 2 ^ 50"
    by (simp add: ten_lines_one_function_def)
  from complexity_score_formula [of ten_lines_one_function] b
  have "calculate_file_complexity (Scanned ten_lines_one_function) =
        binary64 (binary64 (binary64 (binary64
          (binary64 (real (c_lines ten_lines_one_function) * binary64 (1 / 10))
           + real (c_functions ten_lines_one_function) * 2)
           + real (c_classes ten_lines_one_function) * 3)
           + real (c_conditionals ten_lines_one_function) * (3 / 2))
           + real (c_loops ten_lines_one_function) * 2)"
    by blast
  then have "calculate_file_complexity (Scanned ten_lines_one_function) =
        binary64 (binary64 (binary64 (binary64 (binary64 (10 * binary64 (1 / 10)) + 2) + 0) + 0) + 0)"
    by (simp add: ten_lines_one_function_def)
  with b show ?thesis by blast
qed

section \<open>Properties of a batch run\<close>


lemma allocations_append: "allocations (xs @ ys) = allocations xs @ allocations ys"
  by (induction xs rule: allocations.induct) simp_all

lemma successes_append: "successes (xs @ ys) = successes xs @ successes ys"
  by (induction xs rule: successes.induct) simp_all

lemma attempts_append: "attempts (xs @ ys) = attempts xs @ attempts ys"
  by (induction xs rule: attempts.induct) simp_all

lemma resets_append: "resets (xs @ ys) = resets xs @ resets ys"
  by (induction xs rule: resets.induct) simp_all

lemmas trace_append = allocations_append successes_append attempts_append resets_append

lemma draw_frame:
  assumes "draw st = (r, st1)"
  shows "events st1 = events st \<and> changes_made st1 = changes_made st
         \<and> processed_repos st1 = processed_repos st \<and> disk st1 = disk st \<and> mem st1 = mem st
         \<and> total_commits_global st1 = total_commits_global st"
  using assms by (auto simp: draw_def split: list.splits)

lemma sample_frame:
  assumes "sample pool k st = (chosen, st1)"
  shows "events st1 = events st \<and> changes_made st1 = changes_made st
         \<and> processed_repos st1 = processed_repos st \<and> disk st1 = disk st \<and> mem st1 = mem st
         \<and> total_commits_global st1 = total_commits_global st"
  using assms
proof (induction pool k st arbitrary: chosen st1 rule: sample.induct)
  case (1 pool st)
  then show ?case by simp
next
  case (2 pool k st)
  show ?case
  proof (cases "pool = []")
    case True
    with "2.prems" show ?thesis by simp
  next
    case False
    obtain r sta where d: "draw st = (r, sta)" by (cases "draw st")
    obtain ch stb where
      s: "sample (take (r mod length pool) pool @ drop (Suc (r mod length pool)) pool) k sta = (ch, stb)"
      by (cases "sample (take (r mod length pool) pool @ drop (Suc (r mod length pool)) pool) k sta")
    from "2.prems" False d s have "st1 = stb" by simp
    moreover from "2.IH" [OF False refl d [symmetric] refl s]
    have "events stb = events sta \<and> changes_made stb = changes_made sta
         \<and> processed_repos stb = processed_repos sta \<and> disk stb = disk sta \<and> mem stb = mem sta
         \<and> total_commits_global stb = total_commits_global sta" .
    ultimately show ?thesis using draw_frame [OF d] by simp
  qed
qed

lemma randint_bounds:
  assumes "1 \<le> m"
  shows "1 \<le> randint 1 m r \<and> randint 1 m r \<le> m"
proof -
  from assms have "0 < nat m" by simp
  then have "r mod nat m < nat m" by simp
  then have "int (r mod nat m) < m" by linarith
  then show ?thesis by (simp add: randint_def)
qed

lemma commit_loop_allocations:
  "allocations (events (commit_loop repo_path j n st)) = allocations (events st)"
  by (induction n arbitrary: j st)
     (simp_all add: git_commit_def emit_def Let_def allocations_append)

lemma commit_repo_allocations:
  "allocations (events (commit_repo repo_path n st)) = allocations (events st) @ [(repo_path, n)]"
  by (simp add: commit_repo_def commit_loop_allocations emit_def allocations_append)

text \<open>
  C5. Under a budget \<open>budget\<close> split over \<open>n\<close> selected repositories with
  \<open>1 \<le> n \<le> budget\<close>, whatever the generator draws, the commit counts announced are
  one for each selected repository, in order; they sum to \<open>budget\<close> and each is at least
  1. (A budget of 5 over 3 repositories hands out 5 commits, at least one each.)
\<close>

theorem budget_split_allocation:
  assumes "selected_repos \<noteq> []" and "int (length selected_repos) \<le> budget"
  shows "\<exists>ns. allocations (events (budget_loop selected_repos budget st))
                = allocations (events st) @ zip selected_repos ns
             \<and> length ns = length selected_repos
             \<and> sum_list ns = budget
             \<and> (\<forall>n \<in> set ns. 1 \<le> n)"
  using assms
proof (induction selected_repos arbitrary: budget st)
  case Nil
  then show ?case by simp
next
  case (Cons repo_path rest)
  show ?case
  proof (cases "rest = []")
    case True
    with Cons.prems have "1 \<le> budget" by simp
    with True show ?thesis
      by (intro exI [of _ "[budget]"]) (simp add: commit_repo_allocations)
  next
    case False
    let ?m = "min (budget - int (length rest)) (budget - 1)"
    from False have "1 \<le> int (length rest)" by (cases rest) simp_all
    with Cons.prems have m: "1 \<le> ?m" by simp
    obtain r st1 where d: "draw st = (r, st1)" by (cases "draw st")
    let ?c = "randint 1 ?m r"
    from randint_bounds [OF m, of r] have c: "1 \<le> ?c" "?c \<le> ?m" by simp_all
    then have "int (length rest) \<le> budget - ?c" by simp
    from Cons.IH [OF False this, of "commit_repo repo_path ?c st1"]
    obtain ns where
      ns: "allocations (events (budget_loop rest (budget - ?c) (commit_repo repo_path ?c st1)))
             = allocations (events (commit_repo repo_path ?c st1)) @ zip rest ns"
        "length ns = length rest" "sum_list ns = budget - ?c" "\<forall>n \<in> set ns. 1 \<le> n"
      by blast
    have run: "budget_loop (repo_path # rest) budget st
                 = budget_loop rest (budget - ?c) (commit_repo repo_path ?c st1)"
      using False m d by (simp add: Let_def)
    show ?thesis
      unfolding run
      using ns c draw_frame [OF d]
      by (intro exI [of _ "?c # ns"]) (simp add: commit_repo_allocations)
  qed
qed


theorem budget_split_allocation_witness:
  "[''a'', ''b'', ''c''] \<noteq> []
   \<and> int (length [''a'', ''b'', ''c'']) \<le> 5
   \<and> allocations (events (budget_loop [''a'', ''b'', ''c''] 5 three_way_run))
       = [(''a'', 2), (''b'', 1), (''c'', 2)]
   \<and> (\<exists>ns. allocations (events (budget_loop [''a'', ''b'', ''c''] 5 three_way_run))
              = zip [''a'', ''b'', ''c''] ns
          \<and> length ns = 3 \<and> sum_list ns = 5 \<and> (\<forall>n \<in> set ns. 1 \<le> n))"
proof -
  have h1: "[''a'', ''b'', ''c''] \<noteq> []" by simp
  have h2: "int (length [''a'', ''b'', ''c'']) \<le> 5" by simp
  have ev: "allocations (events (budget_loop [''a'', ''b'', ''c''] 5 three_way_run))
              = [(''a'', 2), (''b'', 1), (''c'', 2)]"
    by code_simp
  have e0: "events three_way_run = []"
    by (simp add: three_way_run_def)
  from budget_split_allocation [OF h1 h2, of three_way_run]
  have "\<exists>ns. allocations (events (budget_loop [''a'', ''b'', ''c''] 5 three_way_run))
              = zip [''a'', ''b'', ''c''] ns
          \<and> length ns = 3 \<and> sum_list ns = 5 \<and> (\<forall>n \<in> set ns. 1 \<le> n)"
    by (simp add: e0 numeral_3_eq_3 del: budget_loop.simps)
  with h1 h2 ev show ?thesis by blast
qed

lemma check_all_frame:
  assumes "check_all env repos st = (available, st1)"
  shows "successes (events st1) = successes (events st) \<and> resets (events st1) = resets (events st)
         \<and> attempts (events st1) = attempts (events st)
         \<and> changes_made st1 = changes_made st \<and> processed_repos st1 = processed_repos st
         \<and> disk st1 = disk st \<and> mem st1 = mem st
         \<and> total_commits_global st1 = total_commits_global st"
  using assms
proof (induction repos arbitrary: st available st1)
  case Nil
  then show ?case by simp
next
  case (Cons repo_path rest)
  show ?case
  proof (cases "check_access env repo_path")
    case True
    obtain av st2 where r: "check_all env rest (emit (CheckAccess repo_path) st) = (av, st2)"
      by (cases "check_all env rest (emit (CheckAccess repo_path) st)")
    with Cons.prems True have "st1 = st2" by (simp add: Let_def)
    with Cons.IH [OF r] show ?thesis by (simp add: emit_def trace_append)
  next
    case False
    with Cons.prems
    have "check_all env rest (emit (LogError (AccessError repo_path)) (emit (CheckAccess repo_path) st))
            = (available, st1)"
      by (simp add: Let_def)
    from Cons.IH [OF this] show ?thesis by (simp add: emit_def trace_append)
  qed
qed






lemma commit_loop_inv:
  "batch_inv st \<Longrightarrow> batch_inv (commit_loop repo_path j n st)"
proof (induction n arbitrary: j st)
  case 0
  then show ?case by simp
next
  case (Suc n)
  let ?ok = "case commit_results st of [] \<Rightarrow> False | b # _ \<Rightarrow> b"
  let ?st1 = "emit (GitCommit repo_path ?ok) (st\<lparr>commit_results := tl (commit_results st)\<rparr>)"
  show ?case
  proof (cases ?ok)
    case True
    from Suc.prems True
    have "batch_inv (?st1\<lparr>changes_made := changes_made ?st1 + 1,
                          processed_repos := processed_repos ?st1 @ [repo_path]\<rparr>)"
      by (simp add: batch_inv_def emit_def trace_append)
    from Suc.IH [OF this] True show ?thesis
      by (simp add: git_commit_def Let_def)
  next
    case False
    with Suc.prems show ?thesis
      by (simp add: git_commit_def Let_def batch_inv_def emit_def trace_append)
  qed
qed

lemma commit_repo_inv: "batch_inv st \<Longrightarrow> batch_inv (commit_repo repo_path n st)"
proof -
  assume "batch_inv st"
  then have "batch_inv (emit (Processing repo_path n) st)"
    by (simp add: batch_inv_def emit_def trace_append)
  then show ?thesis
    unfolding commit_repo_def by (rule commit_loop_inv)
qed

lemma draw_inv:
  assumes "draw st = (r, st1)" and "batch_inv st"
  shows "batch_inv st1"
  using assms(2) draw_frame [OF assms(1)] by (simp add: batch_inv_def)

lemma budget_loop_inv:
  "batch_inv st \<Longrightarrow> batch_inv (budget_loop selected_repos budget st)"
proof (induction selected_repos arbitrary: budget st)
  case Nil
  then show ?case by simp
next
  case (Cons repo_path rest)
  obtain r st1 where d: "draw st = (r, st1)" by (cases "draw st")
  from draw_inv [OF d Cons.prems] have "batch_inv (commit_repo repo_path c st1)" for c
    by (rule commit_repo_inv)
  with Cons.IH Cons.prems d show ?case
    by (simp add: Let_def commit_repo_inv)
qed

lemma random_loop_inv:
  "batch_inv st \<Longrightarrow> batch_inv (random_loop selected_repos st)"
proof (induction selected_repos arbitrary: st)
  case Nil
  then show ?case by simp
next
  case (Cons repo_path rest)
  obtain r st1 where d: "draw st = (r, st1)" by (cases "draw st")
  from draw_inv [OF d Cons.prems] have "batch_inv (commit_repo repo_path c st1)" for c
    by (rule commit_repo_inv)
  with Cons.IH d show ?case
    by (simp add: Let_def)
qed

lemma rollback_loop_trace:
  "resets (events (rollback_loop env rs st)) = resets (events st) @ rs
   \<and> successes (events (rollback_loop env rs st)) = successes (events st)"
  by (induction rs arbitrary: st) (simp_all add: reset_changes_def emit_def trace_append)

lemma finish_resets:
  assumes "batch_inv st" and "keep_changes env \<noteq> da"
  shows "distinct (resets (events (finish env st)))
         \<and> set (resets (events (finish env st))) = set (successes (events (finish env st)))"
proof (cases "changes_made st > 0")
  case True
  with assms show ?thesis
    by (simp add: finish_def rollback_loop_trace batch_inv_def)
next
  case False
  with assms have "processed_repos st = []" by (simp add: batch_inv_def)
  with assms False show ?thesis by (simp add: finish_def batch_inv_def)
qed

text \<open>
  C7. When the answer to the closing prompt is not \<^verbatim>\<open>yes\<close>, the reverts asked for are
  one for each repository that had a commit go through, and no other: the list of
  reverted repositories has no repetition and holds exactly those repositories. (Four
  commits over two repositories: two reverts.)
\<close>

theorem rollback_once_per_repository:
  assumes "keep_changes env \<noteq> da"
  shows "\<exists>e st'. process_repositories env repos st0 = (e, st')
           \<and> distinct (resets (events st'))
           \<and> set (resets (events st')) = set (successes (events st'))"
proof (cases "load_stats (disk st0)")
  case (Inl err)
  then show ?thesis by (simp add: process_repositories_def)
next
  case (Inr loaded)
  let ?st = "st0\<lparr>mem := loaded, changes_made := 0, processed_repos := [], events := []\<rparr>"
  obtain available st1 where c: "check_all env repos ?st = (available, st1)"
    by (cases "check_all env repos ?st")
  have "batch_inv ?st" by (simp add: batch_inv_def)
  with check_all_frame [OF c] have i1: "batch_inv st1" by (simp add: batch_inv_def)
  obtain r st2 where d: "draw st1 = (r, st2)" by (cases "draw st1")
  let ?k = "nat (randint 1 (int (length available)) r)"
  obtain selected st3 where s: "sample available ?k st2 = (selected, st3)"
    by (cases "sample available ?k st2")
  from draw_inv [OF d i1] sample_frame [OF s] have i3: "batch_inv st3"
    by (simp add: batch_inv_def)
  note fb = finish_resets [OF budget_loop_inv [OF i3] assms]
  note fr = finish_resets [OF random_loop_inv [OF i3] assms]
  from check_all_frame [OF c] have e1: "resets (events st1) = []" "successes (events st1) = []"
    by simp_all
  have pr: "process_repositories env repos st0 =
              (if available = [] then (None, emit (LogError NoAvailableRepositories) st1)
               else if use_commit_control env = da then
                 (case total_commit_input env of
                    None \<Rightarrow> (Some ValueError, st1)
                  | Some budget \<Rightarrow> (None, finish env (budget_loop selected budget st3)))
               else (None, finish env (random_loop selected st3)))"
    using Inr c d s by (simp add: process_repositories_def Let_def split: option.splits)
  show ?thesis
  proof (cases "available = []")
    case True
    with e1 show ?thesis by (simp add: pr emit_def trace_append)
  next
    case False
    show ?thesis
    proof (cases "use_commit_control env = da")
      case True
      with False e1 fb show ?thesis by (simp add: pr split: option.splits)
    next
      case no_control: False
      with False fr show ?thesis by (simp add: pr)
    qed
  qed
qed


theorem rollback_once_per_repository_witness:
  "keep_changes discarding_env \<noteq> da
   \<and> (\<exists>e st'. process_repositories discarding_env [''a'', ''b''] fresh_run = (e, st')
          \<and> successes (events st') = [''a'', ''a'', ''b'', ''b'']
          \<and> distinct (resets (events st'))
          \<and> set (resets (events st')) = {''a'', ''b''}
          \<and> length (resets (events st')) = 2)"
proof -
  have h: "keep_changes discarding_env \<noteq> da"
    by (simp add: discarding_env_def da_def)
  have ev: "successes (events (snd (process_repositories discarding_env [''a'', ''b''] fresh_run)))
              = [''a'', ''a'', ''b'', ''b'']"
    by code_simp
  from rollback_once_per_repository [OF h, of "[''a'', ''b'']" fresh_run]
  obtain e st' where
    p: "process_repositories discarding_env [''a'', ''b''] fresh_run = (e, st')"
    and d: "distinct (resets (events st'))"
    and s: "set (resets (events st')) = set (successes (events st'))"
    by blast
  from ev p have sc: "successes (events st') = [''a'', ''a'', ''b'', ''b'']" by simp
  with s have st: "set (resets (events st')) = {''a'', ''b''}" by simp
  from d have "length (resets (events st')) = card (set (resets (events st')))"
    by (simp add: distinct_card)
  with st have "length (resets (events st')) = 2" by simp
  with h p sc d st show ?thesis by blast
qed

end
